theory Spec2Isabelle
  imports Main
begin

section \<open>South African ID numbers: the package idnumber\<close>

text \<open>
  A shallow embedding of \<^verbatim>\<open>pkg/idnumber/idnumber.go\<close>. Go strings are byte strings and
  are modelled by \<^typ>\<open>string\<close>; Go's \<^verbatim>\<open>int\<close> values are modelled by \<^typ>\<open>int\<close>
  (no arithmetic of the package can overflow); an \<^verbatim>\<open>error\<close> is a value of the
  datatype \<open>error\<close>. The functions of Go's standard library that the package calls
  (\<^verbatim>\<open>strconv.ParseInt\<close>, \<^verbatim>\<open>fmt.Sprintf\<close>, \<^verbatim>\<open>time.Date\<close>, \<^verbatim>\<open>time.Parse\<close>,
  \<^verbatim>\<open>Time.Format\<close>, \<^verbatim>\<open>rand.Intn\<close>) and of \<^verbatim>\<open>github.com/theplant/luhn\<close> are modelled
  first, each specialised to the arguments the package passes.
\<close>

subsection \<open>Errors\<close>

text \<open>
  \<open>NumError\<close> is \<^verbatim>\<open>*strconv.NumError\<close> with its fields \<^verbatim>\<open>Func\<close>, \<^verbatim>\<open>Num\<close> and
  \<^verbatim>\<open>Err\<close>; \<open>ParseError\<close> is \<^verbatim>\<open>*time.ParseError\<close> with the text it could not parse.
  The three other constructors are the package's own error variables.
\<close>

datatype numerr = ErrSyntax | ErrRange

datatype error =
    ErrIncorrectIDStringLength
  | ErrIncorrectGenderRange
  | ErrInvalidLuhnNumber
  | ParseError string
  | NumError string string numerr

subsection \<open>Bytes and decimal digits\<close>

definition isDigit :: "char \<Rightarrow> bool" where
  "isDigit c = (48 \<le> (of_char c :: nat) \<and> (of_char c :: nat) \<le> 57)"

definition digitVal :: "char \<Rightarrow> nat" where
  "digitVal c = (of_char c :: nat) - 48"

text \<open>The byte \<^verbatim>\<open>'0' + n\<close> of a digit \<open>n\<close> below 10.\<close>

definition digitChar :: "nat \<Rightarrow> char" where
  "digitChar n = ''0123456789'' ! n"

text \<open>Go's slice expression \<^verbatim>\<open>s[i:j]\<close>, used by the package with \<open>i \<le> j \<le> len(s)\<close> only.\<close>

definition slice :: "string \<Rightarrow> nat \<Rightarrow> nat \<Rightarrow> string" where
  "slice s i j = take (j - i) (drop i s)"

subsection \<open>strconv.ParseInt, base 10\<close>

text \<open>
  The loop of \<^verbatim>\<open>strconv.ParseUint(s, 10, bitSize)\<close> over the bytes of \<open>s\<close>, with the
  accumulator \<open>n\<close> a \<^verbatim>\<open>uint64\<close>: a byte that is not a decimal digit is a syntax error,
  and \<open>n * 10 + d\<close> leaving \<^verbatim>\<open>uint64\<close> or exceeding \<open>maxVal = 2 ^ bitSize - 1\<close>
  is a range error.
\<close>

fun parseUintLoop :: "nat \<Rightarrow> nat \<Rightarrow> string \<Rightarrow> numerr + nat" where
  "parseUintLoop maxVal n [] = Inr n"
| "parseUintLoop maxVal n (c # cs) =
     (if \<not> isDigit c then Inl ErrSyntax
      else if (2 ^ 64 - 1) div 10 + 1 \<le> n then Inl ErrRange
      else if 2 ^ 64 \<le> n * 10 + digitVal c \<or> maxVal < n * 10 + digitVal c then Inl ErrRange
      else parseUintLoop maxVal (n * 10 + digitVal c) cs)"

definition ParseUint :: "string \<Rightarrow> nat \<Rightarrow> numerr + nat" where
  "ParseUint s bitSize =
     (if s = [] then Inl ErrSyntax else parseUintLoop (2 ^ bitSize - 1) 0 s)"

text \<open>
  \<^verbatim>\<open>strconv.ParseInt(s, 10, bitSize)\<close>: one leading \<open>+\<close> or \<open>-\<close> is picked off, the
  rest is converted unsigned, and the magnitude is checked against \<open>2 ^ (bitSize - 1)\<close>.
\<close>

definition ParseInt :: "string \<Rightarrow> nat \<Rightarrow> error + int" where
  "ParseInt s bitSize =
     (if s = [] then Inl (NumError ''ParseInt'' s ErrSyntax)
      else
        let neg = (hd s = CHR ''-'');
            s1 = (if hd s = CHR ''+'' then tl s else if hd s = CHR ''-'' then tl s else s);
            cutoff = (2::nat) ^ (bitSize - 1)
        in case ParseUint s1 bitSize of
             Inl ErrSyntax \<Rightarrow> Inl (NumError ''ParseInt'' s ErrSyntax)
           | Inl ErrRange \<Rightarrow> Inl (NumError ''ParseInt'' s ErrRange)
           | Inr un \<Rightarrow>
               if \<not> neg \<and> cutoff \<le> un then Inl (NumError ''ParseInt'' s ErrRange)
               else if neg \<and> cutoff < un then Inl (NumError ''ParseInt'' s ErrRange)
               else Inr (if neg then - int un else int un))"

subsection \<open>fmt.Sprintf verbs for integers\<close>

text \<open>The decimal digits of a natural number, most significant first.\<close>

fun digitsOf :: "nat \<Rightarrow> string" where
  "digitsOf n = (if n < 10 then [digitChar n] else digitsOf (n div 10) @ [digitChar (n mod 10)])"

declare digitsOf.simps [simp del]

text \<open>Digits padded on the left with zeros to at least \<open>w\<close> digits.\<close>

definition zeroPad :: "nat \<Rightarrow> nat \<Rightarrow> string" where
  "zeroPad w n = replicate (w - length (digitsOf n)) (CHR ''0'') @ digitsOf n"

text \<open>The verb \<^verbatim>\<open>%d\<close>.\<close>

definition fmtD :: "int \<Rightarrow> string" where
  "fmtD n = (if n < 0 then CHR ''-'' # digitsOf (nat (- n)) else digitsOf (nat n))"

text \<open>
  The verb \<^verbatim>\<open>%0.4d\<close>: the precision asks for at least four digits, zeros in front; a
  minus sign comes before the zeros and a longer number is not cut.
\<close>

definition fmtD04 :: "int \<Rightarrow> string" where
  "fmtD04 n = (if n < 0 then CHR ''-'' # zeroPad 4 (nat (- n)) else zeroPad 4 (nat n))"

subsection \<open>The Luhn check digit of github.com/theplant/luhn\<close>

text \<open>
  Modelled from the spec: the source of \<^verbatim>\<open>github.com/theplant/luhn\<close> is not part of the
  repository, which only calls \<^verbatim>\<open>luhn.CalculateLuhn\<close>. It is the standard mod-10 check
  digit: \<^verbatim>\<open>checksum\<close> walks the decimal digits of \<open>number\<close> from the right, doubling
  every second digit, the rightmost first (and adding the two digits of a doubled value
  above 9), and returns the sum modulo 10; \<^verbatim>\<open>CalculateLuhn\<close> returns 0 for checksum 0 and
  \<open>10 - checksum\<close> otherwise. The repository's test, which expects \<open>8107095005083\<close>,
  fixes its value at 810709500508 as 3.
\<close>

function checksumLoop :: "nat \<Rightarrow> int \<Rightarrow> int \<Rightarrow> int" where
  "checksumLoop i number luhn =
     (if 0 < number then
        let cur = number mod 10;
            cur' = (if i mod 2 = 0
                    then (if 9 < cur * 2 then (cur * 2) mod 10 + (cur * 2) div 10 else cur * 2)
                    else cur)
        in checksumLoop (i + 1) (number div 10) (luhn + cur')
      else luhn)"
  by pat_completeness auto
termination
  by (relation "measure (\<lambda>(i, number, luhn). nat number)") auto

declare checksumLoop.simps [simp del]

definition checksum :: "int \<Rightarrow> int" where
  "checksum number = checksumLoop 0 number 0 mod 10"

definition CalculateLuhn :: "int \<Rightarrow> int" where
  "CalculateLuhn number =
     (let checkNumber = checksum number in if checkNumber = 0 then 0 else 10 - checkNumber)"

subsection \<open>Calendar dates: time.Time, time.Date, Format and Parse\<close>

text \<open>
  The package reads a \<^verbatim>\<open>time.Time\<close> only through its calendar date (\<^verbatim>\<open>Format\<close>
  with year, month and day, and \<^verbatim>\<open>Day\<close>, \<^verbatim>\<open>Month\<close>, \<^verbatim>\<open>Year\<close>), so a
  \<^verbatim>\<open>time.Time\<close> is modelled by that date, in the proleptic Gregorian calendar. A
  \<^verbatim>\<open>time.Time\<close> always denotes a date that exists: \<open>validDate\<close>.
\<close>

record Time =
  year :: int
  month :: int
  day :: int

definition isLeap :: "int \<Rightarrow> bool" where
  "isLeap y = (y mod 4 = 0 \<and> (y mod 100 \<noteq> 0 \<or> y mod 400 = 0))"

definition daysIn :: "int \<Rightarrow> int \<Rightarrow> int" where
  "daysIn m y =
     (if m = 2 then (if isLeap y then 29 else 28)
      else if m = 4 \<or> m = 6 \<or> m = 9 \<or> m = 11 then 30 else 31)"

definition validDate :: "Time \<Rightarrow> bool" where
  "validDate t = (1 \<le> month t \<and> month t \<le> 12 \<and> 1 \<le> day t \<and> day t \<le> daysIn (month t) (year t))"

text \<open>
  Normalising a day of the month that is outside the month \<open>m\<close> (in 1..12) of year \<open>y\<close>:
  a day below 1 is counted back from the end of the month before, a day beyond the end of
  the month is counted on into the next month.
\<close>

function normDay :: "int \<Rightarrow> int \<Rightarrow> int \<Rightarrow> Time" where
  "normDay y m d =
     (if d < 1 then
        (let y' = (if m = 1 then y - 1 else y); m' = (if m = 1 then 12 else m - 1)
         in normDay y' m' (d + daysIn m' y'))
      else if daysIn m y < d then
        (let y' = (if m = 12 then y + 1 else y); m' = (if m = 12 then 1 else m + 1)
         in normDay y' m' (d - daysIn m y))
      else \<lparr>year = y, month = m, day = d\<rparr>)"
  by pat_completeness auto
termination
  by (relation "measure (\<lambda>(y, m, d). if d < 1 then nat (1 - d) + 32 else nat d)")
     (auto simp: daysIn_def)

declare normDay.simps [simp del]

text \<open>
  \<^verbatim>\<open>time.Date(year, month, day, 0, 0, 0, 0, loc)\<close> for a location with offset 0: values
  outside their usual ranges are normalised, the month into the year first, then the day
  (October 32 is November 1, January 0 is December 31 of the year before).
\<close>

definition Date :: "int \<Rightarrow> int \<Rightarrow> int \<Rightarrow> Time" where
  "Date y m d = normDay (y + (m - 1) div 12) ((m - 1) mod 12 + 1) d"

text \<open>
  \<^verbatim>\<open>Time.Unix\<close> of a date at 00:00:00 UTC: the days since 1 January 1970 times 86400,
  the days counted as the library does (days before the year, before the month, in the
  month).
\<close>

definition daysBeforeMonth :: "int \<Rightarrow> int" where
  "daysBeforeMonth m = [0, 31, 59, 90, 120, 151, 181, 212, 243, 273, 304, 334] ! nat (m - 1)"

definition unixDays :: "Time \<Rightarrow> int" where
  "unixDays t =
     365 * (year t - 1) + (year t - 1) div 4 - (year t - 1) div 100 + (year t - 1) div 400
     + daysBeforeMonth (month t) + (if isLeap (year t) \<and> 3 \<le> month t then 1 else 0)
     + (day t - 1) - 719162"

definition Unix :: "Time \<Rightarrow> int" where
  "Unix t = unixDays t * 86400"

text \<open>
  \<^verbatim>\<open>time.Unix(sec, 0)\<close> read through \<^verbatim>\<open>Day()\<close>, \<^verbatim>\<open>Month()\<close> and \<^verbatim>\<open>Year()\<close>: the
  calendar date of that instant in the local time zone, whose offset from UTC in seconds
  at that instant is the parameter \<open>offset\<close>.
\<close>

definition timeUnix :: "int \<Rightarrow> int \<Rightarrow> Time" where
  "timeUnix offset sec = normDay 1970 1 (1 + (sec + offset) div 86400)"

text \<open>
  \<^verbatim>\<open>t.Format("060102")\<close>: the year modulo 100 (of its absolute value), the month and the
  day, two digits each.
\<close>

definition Format060102 :: "Time \<Rightarrow> string" where
  "Format060102 t =
     zeroPad 2 (nat (\<bar>year t\<bar> mod 100)) @ zeroPad 2 (nat (month t)) @ zeroPad 2 (nat (day t))"

text \<open>
  The helpers of \<^verbatim>\<open>time.Parse\<close>: \<^verbatim>\<open>leadingInt\<close> consumes leading digits into a
  \<^verbatim>\<open>uint64\<close> and fails above \<open>2 ^ 63\<close>; \<^verbatim>\<open>atoi\<close> accepts one sign and then digits only;
  \<^verbatim>\<open>getnum\<close> with \<^verbatim>\<open>fixed = true\<close> reads exactly two digits.
\<close>

fun leadingInt :: "nat \<Rightarrow> string \<Rightarrow> (nat \<times> string) option" where
  "leadingInt x [] = Some (x, [])"
| "leadingInt x (c # cs) =
     (if \<not> isDigit c then Some (x, c # cs)
      else if 2 ^ 63 div 10 < x then None
      else if 2 ^ 63 < x * 10 + digitVal c then None
      else leadingInt (x * 10 + digitVal c) cs)"

definition atoi :: "string \<Rightarrow> int option" where
  "atoi s =
     (let signed = (s \<noteq> [] \<and> (hd s = CHR ''-'' \<or> hd s = CHR ''+''));
          neg = (signed \<and> hd s = CHR ''-'');
          s1 = (if signed then tl s else s)
      in case leadingInt 0 s1 of
           None \<Rightarrow> None
         | Some (q, rem) \<Rightarrow>
             if rem \<noteq> [] then None else Some (if neg then - int q else int q))"

definition getnum2 :: "string \<Rightarrow> (int \<times> string) option" where
  "getnum2 s =
     (if length s < 2 then None
      else if \<not> isDigit (s ! 0) then None
      else if \<not> isDigit (s ! 1) then None
      else Some (int (digitVal (s ! 0)) * 10 + int (digitVal (s ! 1)), drop 2 s))"

text \<open>
  \<^verbatim>\<open>time.Parse("060102", v)\<close>: a two-byte year read by \<^verbatim>\<open>atoi\<close> and moved into
  1969..2068 (69 and above is 19xx, below is 20xx), a two-digit month in 1..12, a
  two-digit day, no text left over, and the day within the month of that year. Every
  failure is a \<^verbatim>\<open>*time.ParseError\<close>.
\<close>

definition Parse060102 :: "string \<Rightarrow> error + Time" where
  "Parse060102 v =
     (if length v < 2 then Inl (ParseError v)
      else (case atoi (take 2 v) of
        None \<Rightarrow> Inl (ParseError v)
      | Some yy \<Rightarrow>
          (let y = (if 69 \<le> yy then yy + 1900 else yy + 2000) in
          (case getnum2 (drop 2 v) of
            None \<Rightarrow> Inl (ParseError v)
          | Some (m, v2) \<Rightarrow>
              (if m \<le> 0 \<or> 12 < m then Inl (ParseError v)
               else (case getnum2 v2 of
                 None \<Rightarrow> Inl (ParseError v)
               | Some (d, v3) \<Rightarrow>
                   (if v3 \<noteq> [] then Inl (ParseError v)
                    else if d < 1 \<or> daysIn m y < d then Inl (ParseError v)
                    else Inr (Date y m d))))))))"

subsection \<open>The package: constants and random gender codes\<close>

definition minFemale :: int where "minFemale = 0"
definition maxFemale :: int where "maxFemale = 4999"
definition maxMale :: int where "maxMale = 9999"
definition minMale :: int where "minMale = 5000"

text \<open>
  \<^verbatim>\<open>rand.Intn(n)\<close> returns a uniformly drawn integer \<open>r\<close> with \<open>0 \<le> r < n\<close>; the model
  takes the value drawn as a parameter. In \<open>randomFemale r\<close> and \<open>randomMale r\<close>, \<open>r\<close> is
  the value of \<^verbatim>\<open>rand.Intn(4999)\<close>.
\<close>

definition randomFemale :: "int \<Rightarrow> int" where
  "randomFemale r = minFemale + r"

definition randomMale :: "int \<Rightarrow> int" where
  "randomMale r = minMale + r"

definition Citizen :: int where "Citizen = 0"
definition PermanentResident :: int where "PermanentResident = 1"

definition genderString :: "int \<Rightarrow> string" where
  "genderString g =
     (if minFemale \<le> g \<and> g \<le> maxFemale then ''female''
      else if minMale \<le> g \<and> g \<le> maxMale then ''male''
      else ''undefined'')"

subsection \<open>IDNumber and its string form\<close>

record IDNumber =
  birthdate :: Time
  gender :: int
  citizenship :: int
  luhnValue :: int

text \<open>\<^verbatim>\<open>fmt.Sprintf("%s%0.4d%d8%d", birthdate.Format("060102"), gender, citizenship, luhnValue)\<close>\<close>

definition String :: "IDNumber \<Rightarrow> string" where
  "String idn =
     Format060102 (birthdate idn) @ fmtD04 (gender idn) @ fmtD (citizenship idn) @ ''8''
     @ fmtD (luhnValue idn)"

subsection \<open>Configuration options\<close>

text \<open>
  A \<^verbatim>\<open>ConfigOption\<close> is a function that mutates the \<^verbatim>\<open>*IDNumber\<close> it is given and
  returns an error or nil: here it returns the IDNumber as it left it, and the error.
\<close>

type_synonym ConfigOption = "IDNumber \<Rightarrow> IDNumber \<times> error option"

definition SetDate :: "int \<Rightarrow> int \<Rightarrow> int \<Rightarrow> ConfigOption" where
  "SetDate d m y idNumber = (idNumber\<lparr>birthdate := Date y m d\<rparr>, None)"

definition SetGender :: "int \<Rightarrow> ConfigOption" where
  "SetGender g idNumber = (idNumber\<lparr>gender := g\<rparr>, None)"

definition SetRandomMale :: "int \<Rightarrow> ConfigOption" where
  "SetRandomMale r = SetGender (randomMale r)"

definition SetRandomFemale :: "int \<Rightarrow> ConfigOption" where
  "SetRandomFemale r = SetGender (randomFemale r)"

definition setCitizenship :: "int \<Rightarrow> ConfigOption" where
  "setCitizenship c idNumber = (idNumber\<lparr>citizenship := c\<rparr>, None)"

definition SetCitizen :: ConfigOption where
  "SetCitizen = setCitizenship Citizen"

definition SetResident :: ConfigOption where
  "SetResident = setCitizenship PermanentResident"

text \<open>
  \<open>SetFromString\<close>: the length check, then the date at bytes 0..5, the gender code at
  6..9, the citizenship at 10 and the Luhn digit at 12, each stored as soon as it is
  parsed. Byte 11 is never read.
\<close>

definition SetFromString :: "string \<Rightarrow> ConfigOption" where
  "SetFromString ids idNumber =
     (if length ids \<noteq> 13 then (idNumber, Some ErrIncorrectIDStringLength)
      else (case Parse060102 (slice ids 0 6) of
        Inl e \<Rightarrow> (idNumber, Some e)
      | Inr t \<Rightarrow>
          (case ParseInt (slice ids 6 10) 32 of
            Inl e \<Rightarrow> (idNumber\<lparr>birthdate := t\<rparr>, Some e)
          | Inr g \<Rightarrow>
              (case ParseInt (slice ids 10 11) 32 of
                Inl e \<Rightarrow> (idNumber\<lparr>birthdate := t, gender := g\<rparr>, Some e)
              | Inr c \<Rightarrow>
                  (case ParseInt (slice ids 12 13) 32 of
                    Inl e \<Rightarrow> (idNumber\<lparr>birthdate := t, gender := g, citizenship := c\<rparr>, Some e)
                  | Inr l \<Rightarrow>
                      (idNumber\<lparr>birthdate := t, gender := g, citizenship := c, luhnValue := l\<rparr>,
                       None))))))"

subsection \<open>NewIDNumber\<close>

text \<open>
  The options run in order on an IDNumber that starts as the zero value (the zero
  \<^verbatim>\<open>time.Time\<close> is 1 January of year 1) with \<open>luhnValue = -1\<close>; the first error ends
  the run.
\<close>

definition zeroTime :: Time where
  "zeroTime = \<lparr>year = 1, month = 1, day = 1\<rparr>"

definition newDraft :: IDNumber where
  "newDraft = \<lparr>birthdate = zeroTime, gender = 0, citizenship = 0, luhnValue = - 1\<rparr>"

fun applyOptions :: "ConfigOption list \<Rightarrow> IDNumber \<Rightarrow> IDNumber \<times> error option" where
  "applyOptions [] idNumber = (idNumber, None)"
| "applyOptions (configOption # rest) idNumber =
     (case configOption idNumber of
        (idNumber', Some err) \<Rightarrow> (idNumber', Some err)
      | (idNumber', None) \<Rightarrow> applyOptions rest idNumber')"

definition partialString :: "IDNumber \<Rightarrow> string" where
  "partialString idn =
     Format060102 (birthdate idn) @ fmtD04 (gender idn) @ fmtD (citizenship idn) @ ''8''"

text \<open>
  \<open>finalize\<close> is the second half of \<^verbatim>\<open>NewIDNumber\<close>, after the options have run: the
  check digit is computed over the partial string read as a 64-bit integer. A
  \<open>luhnValue\<close> above 0 is compared with it; any other \<open>luhnValue\<close> is replaced by it.
\<close>

definition finalize :: "IDNumber \<Rightarrow> error + IDNumber" where
  "finalize idNumber =
     (case ParseInt (partialString idNumber) 64 of
        Inl err \<Rightarrow> Inl err
      | Inr partialID \<Rightarrow>
          (let luhnValue' = CalculateLuhn partialID in
           if 0 < luhnValue idNumber then
             (if luhnValue idNumber \<noteq> luhnValue' then Inl ErrInvalidLuhnNumber
              else Inr idNumber)
           else Inr (idNumber\<lparr>luhnValue := luhnValue'\<rparr>)))"

definition NewIDNumber :: "ConfigOption list \<Rightarrow> error + IDNumber" where
  "NewIDNumber configOptions =
     (case applyOptions configOptions newDraft of
        (idNumber, Some err) \<Rightarrow> Inl err
      | (idNumber, None) \<Rightarrow> finalize idNumber)"

definition NewID :: "int \<Rightarrow> int \<Rightarrow> int \<Rightarrow> int \<Rightarrow> int \<Rightarrow> error + IDNumber" where
  "NewID d m y g c = NewIDNumber [SetDate d m y, SetGender g, setCitizenship c]"

subsection \<open>RandomIDNumber\<close>

text \<open>
  The four random draws of one call are parameters, in the order the code makes them:
  \<open>secDraw\<close> is \<^verbatim>\<open>rand.Int63n(delta)\<close>, \<open>genderCoin\<close> the first \<^verbatim>\<open>rand.Intn(100)\<close>,
  \<open>genderDraw\<close> the \<^verbatim>\<open>rand.Intn(4999)\<close> of the gender option chosen, \<open>citizenCoin\<close>
  the second \<^verbatim>\<open>rand.Intn(100)\<close>. \<open>offset\<close> is the local time zone's offset at the
  drawn instant, which \<^verbatim>\<open>time.Unix\<close> uses.
\<close>

definition genderOption :: "int \<Rightarrow> int \<Rightarrow> ConfigOption" where
  "genderOption genderCoin genderDraw =
     (if 50 < genderCoin then SetRandomFemale genderDraw else SetRandomMale genderDraw)"

definition citizenOption :: "int \<Rightarrow> ConfigOption" where
  "citizenOption citizenCoin = (if 50 < citizenCoin then SetCitizen else SetResident)"

definition RandomIDNumber :: "int \<Rightarrow> int \<Rightarrow> int \<Rightarrow> int \<Rightarrow> int \<Rightarrow> error + IDNumber" where
  "RandomIDNumber offset secDraw genderCoin genderDraw citizenCoin =
     (let min = Unix (Date 1970 1 0);
          max = Unix (Date 2070 1 0);
          delta = max - min;
          sec = secDraw + min;
          randomDate = timeUnix offset sec
      in NewIDNumber
           [SetDate (day randomDate) (month randomDate) (year randomDate),
            genderOption genderCoin genderDraw,
            citizenOption citizenCoin])"

subsection \<open>Auxiliary notions for the proofs\<close>

text \<open>The number a string of decimal digits denotes, continuing from \<open>n\<close>.\<close>

definition decAcc :: "nat \<Rightarrow> string \<Rightarrow> nat" where
  "decAcc n s = foldl (\<lambda>a c. a * 10 + digitVal c) n s"

text \<open>
  The options the package can build. \<open>SetRandomMale\<close> and \<open>SetRandomFemale\<close> are
  \<open>SetGender\<close> at the code drawn, \<open>SetCitizen\<close> and \<open>SetResident\<close> are \<open>setCitizenship\<close> at
  the two constants.
\<close>

inductive packageOption :: "ConfigOption \<Rightarrow> bool" where
  SetDate: "packageOption (SetDate d m y)"
| SetGender: "packageOption (SetGender g)"
| setCitizenship: "packageOption (setCitizenship c)"
| SetFromString: "packageOption (SetFromString ids)"

text \<open>
  A decimal numeral with an optional sign: one \<open>+\<close> or \<open>-\<close> at most, then at least one
  digit, and nothing else; and the integer it denotes.
\<close>

definition signedDigits :: "string \<Rightarrow> bool" where
  "signedDigits f =
     (f \<noteq> [] \<and>
      (let r = (if hd f = CHR ''+'' \<or> hd f = CHR ''-'' then tl f else f)
       in r \<noteq> [] \<and> list_all isDigit r))"

definition signedVal :: "string \<Rightarrow> int" where
  "signedVal f =
     (if hd f = CHR ''-'' then - int (decAcc 0 (tl f))
      else if hd f = CHR ''+'' then int (decAcc 0 (tl f))
      else int (decAcc 0 f))"

section \<open>Properties of the library functions\<close>

subsection \<open>Decimal digits and strconv.ParseInt\<close>

lemma decAcc_Nil [simp]: "decAcc n [] = n"
  by (simp add: decAcc_def)

lemma decAcc_Cons [simp]: "decAcc n (c # cs) = decAcc (n * 10 + digitVal c) cs"
  by (simp add: decAcc_def)

lemma decAcc_append: "decAcc n (s @ t) = decAcc (decAcc n s) t"
  by (simp add: decAcc_def)

lemma decAcc_shift: "decAcc n s = n * 10 ^ length s + decAcc 0 s"
proof (induction s arbitrary: n)
  case Nil
  show ?case by simp
next
  case (Cons c cs)
  have "decAcc n (c # cs) = decAcc (n * 10 + digitVal c) cs" by simp
  also have "\<dots> = (n * 10 + digitVal c) * 10 ^ length cs + decAcc 0 cs"
    by (rule Cons.IH)
  also have "\<dots> = n * 10 ^ length (c # cs) + (digitVal c * 10 ^ length cs + decAcc 0 cs)"
    by (simp add: algebra_simps)
  also have "digitVal c * 10 ^ length cs + decAcc 0 cs = decAcc 0 (c # cs)"
    using Cons.IH [of "digitVal c"] by simp
  finally show ?case .
qed

lemma decAcc_ge: "n \<le> decAcc n s"
proof -
  have "n \<le> n * 10 ^ length s" by simp
  then show ?thesis using decAcc_shift [of n s] by linarith
qed

lemma isDigit_digitVal: "isDigit c \<Longrightarrow> digitVal c \<le> 9"
  unfolding isDigit_def digitVal_def by arith

lemma decAcc_less: "list_all isDigit s \<Longrightarrow> decAcc 0 s < 10 ^ length s"
proof (induction s rule: rev_induct)
  case Nil
  show ?case by simp
next
  case (snoc c s)
  then have "decAcc 0 s < 10 ^ length s" and "digitVal c \<le> 9"
    by (simp_all add: isDigit_digitVal)
  then have "decAcc 0 s * 10 + digitVal c < 10 ^ length s * 10" by linarith
  then show ?case by (simp add: decAcc_append)
qed

lemma parseUintLoop_digits:
  "list_all isDigit s \<Longrightarrow> decAcc n s \<le> maxVal \<Longrightarrow> maxVal < 2 ^ 64 \<Longrightarrow>
   parseUintLoop maxVal n s = Inr (decAcc n s)"
proof (induction s arbitrary: n)
  case Nil
  show ?case by simp
next
  case (Cons c cs)
  have "n * 10 + digitVal c \<le> decAcc (n * 10 + digitVal c) cs" by (rule decAcc_ge)
  with Cons.prems have le: "n * 10 + digitVal c \<le> maxVal" by simp
  with Cons.prems have small: "n * 10 + digitVal c < 2 ^ 64" by linarith
  then have "n < (2 ^ 64 - 1) div 10 + 1" by simp
  with Cons le small show ?case by simp
qed

lemma parseUintLoop_not_digits:
  "\<not> list_all isDigit s \<Longrightarrow> \<exists>e. parseUintLoop maxVal n s = Inl e"
  by (induction s arbitrary: n) auto

lemma digitChar_digit: "n < 10 \<Longrightarrow> isDigit (digitChar n) \<and> digitVal (digitChar n) = n"
proof -
  assume "n < 10"
  then have "n \<in> {0, 1, 2, 3, 4, 5, 6, 7, 8, 9}" by auto
  then show ?thesis
    by (auto simp: digitChar_def isDigit_def digitVal_def)
qed

lemma digitsOf_digits: "list_all isDigit (digitsOf n)"
  by (induction n rule: digitsOf.induct) (subst digitsOf.simps, simp add: digitChar_digit)

lemma digitsOf_not_Nil: "digitsOf n \<noteq> []"
  by (subst digitsOf.simps) simp

lemma decAcc_digitsOf: "decAcc 0 (digitsOf n) = n"
proof (induction n rule: digitsOf.induct)
  case (1 n)
  show ?case
  proof (cases "n < 10")
    case True
    then show ?thesis by (subst digitsOf.simps) (simp add: digitChar_digit)
  next
    case False
    with 1 have "decAcc 0 (digitsOf (n div 10)) = n div 10" by simp
    with False show ?thesis
      by (subst digitsOf.simps) (simp add: decAcc_append digitChar_digit)
  qed
qed

lemma length_digitsOf: "n < 10 ^ k \<Longrightarrow> 0 < k \<Longrightarrow> length (digitsOf n) \<le> k"
proof (induction n arbitrary: k rule: digitsOf.induct)
  case (1 n)
  show ?case
  proof (cases "n < 10")
    case True
    with 1 show ?thesis by (subst digitsOf.simps) simp
  next
    case False
    obtain j where k: "k = Suc j" using 1(3) by (cases k) auto
    with 1(2) False have "0 < j" by (cases j) auto
    moreover from 1(2) k have "n div 10 < 10 ^ j" by (simp add: less_mult_imp_div_less mult.commute)
    ultimately have "length (digitsOf (n div 10)) \<le> j" using 1(1) False by simp
    with False k show ?thesis by (subst digitsOf.simps) simp
  qed
qed

lemma zeroPad_digits: "list_all isDigit (zeroPad w n)"
proof -
  have "list_all isDigit (replicate k (CHR ''0''))" for k
    by (simp add: list_all_iff isDigit_def)
  then show ?thesis by (simp add: zeroPad_def digitsOf_digits)
qed

lemma decAcc_zeros: "decAcc 0 (replicate k (CHR ''0'')) = 0"
  by (induction k) (simp_all add: digitVal_def)

lemma decAcc_zeroPad: "decAcc 0 (zeroPad w n) = n"
  by (simp add: zeroPad_def decAcc_append decAcc_zeros decAcc_digitsOf)

lemma length_zeroPad: "n < 10 ^ w \<Longrightarrow> 0 < w \<Longrightarrow> length (zeroPad w n) = w"
  using length_digitsOf [of n w] by (simp add: zeroPad_def)

lemma zeroPad_not_Nil: "zeroPad w n \<noteq> []"
  by (simp add: zeroPad_def digitsOf_not_Nil)

lemma isDigit_not_sign: "isDigit c \<Longrightarrow> c \<noteq> CHR ''+'' \<and> c \<noteq> CHR ''-''"
  by (auto simp: isDigit_def)

lemma ParseInt_digits:
  assumes "s \<noteq> []" "list_all isDigit s" "decAcc 0 s < 2 ^ (bitSize - 1)" "0 < bitSize" "bitSize \<le> 64"
  shows "ParseInt s bitSize = Inr (int (decAcc 0 s))"
proof -
  from assms(1,2) have hd: "hd s \<noteq> CHR ''+''" "hd s \<noteq> CHR ''-''"
    by (cases s; simp add: isDigit_not_sign)+
  obtain j where j: "bitSize = Suc j" using assms(4) by (cases bitSize) auto
  have le: "decAcc 0 s \<le> 2 ^ bitSize - 1" using assms(3) by (simp add: j)
  have "(2::nat) ^ bitSize \<le> 2 ^ 64" by (rule power_increasing [OF assms(5)]) simp
  then have "(2::nat) ^ bitSize - 1 < 2 ^ 64" by simp
  with assms(2) le have "parseUintLoop (2 ^ bitSize - 1) 0 s = Inr (decAcc 0 s)"
    by (rule parseUintLoop_digits)
  with assms(1,3) hd show ?thesis
    by (simp add: ParseInt_def ParseUint_def Let_def)
qed

subsection \<open>Calendar dates\<close>

lemma daysIn_bounds: "28 \<le> daysIn m y \<and> daysIn m y \<le> 31"
  by (simp add: daysIn_def)

lemma normDay_in_month:
  "1 \<le> d \<Longrightarrow> d \<le> daysIn m y \<Longrightarrow> normDay y m d = \<lparr>year = y, month = m, day = d\<rparr>"
  by (subst normDay.simps) simp

lemma normDay_valid: "1 \<le> m \<Longrightarrow> m \<le> 12 \<Longrightarrow> validDate (normDay y m d)"
proof (induction y m d rule: normDay.induct)
  case (1 y m d)
  show ?case
  proof (cases "d < 1")
    case True
    with 1 show ?thesis by (subst normDay.simps) (simp add: Let_def)
  next
    case False
    show ?thesis
    proof (cases "daysIn m y < d")
      case True
      with False 1 show ?thesis by (subst normDay.simps) (simp add: Let_def)
    next
      case notafter: False
      with False 1 show ?thesis by (subst normDay.simps) (simp add: validDate_def)
    qed
  qed
qed

lemma Date_valid: "validDate (Date y m d)"
proof -
  have "1 \<le> (m - 1) mod 12 + 1" and "(m - 1) mod 12 + 1 \<le> 12" by simp_all
  then show ?thesis unfolding Date_def by (rule normDay_valid)
qed

lemma Date_in_range:
  "1 \<le> m \<Longrightarrow> m \<le> 12 \<Longrightarrow> 1 \<le> d \<Longrightarrow> d \<le> daysIn m y \<Longrightarrow>
   Date y m d = \<lparr>year = y, month = m, day = d\<rparr>"
proof -
  assume m: "1 \<le> m" "m \<le> 12" and d: "1 \<le> d" "d \<le> daysIn m y"
  from m have "(m - 1) div 12 = 0" and "(m - 1) mod 12 + 1 = m" by simp_all
  with d show ?thesis by (simp add: Date_def normDay_in_month)
qed

lemma Date_of_valid: "validDate t \<Longrightarrow> Date (year t) (month t) (day t) = t"
  by (simp add: validDate_def Date_in_range)

lemma timeUnix_valid: "validDate (timeUnix offset sec)"
  unfolding timeUnix_def by (rule normDay_valid) simp_all

lemma zeroTime_valid: "validDate zeroTime"
  by (simp add: validDate_def zeroTime_def daysIn_def)

subsection \<open>Format and Parse of dates\<close>

lemma digitChar_0: "digitChar 0 = CHR ''0''"
  by (simp add: digitChar_def)

lemma zeroPad_2: "n < 100 \<Longrightarrow> zeroPad 2 n = [digitChar (n div 10), digitChar (n mod 10)]"
proof (cases "n < 10")
  case True
  then have "digitsOf n = [digitChar n]" by (subst digitsOf.simps) simp
  with True show ?thesis by (simp add: zeroPad_def digitChar_0)
next
  case False
  assume "n < 100"
  then have "n div 10 < 10" by simp
  then have "digitsOf (n div 10) = [digitChar (n div 10)]" by (subst digitsOf.simps) simp
  with False have "digitsOf n = [digitChar (n div 10), digitChar (n mod 10)]"
    by (subst digitsOf.simps) simp
  then show ?thesis by (simp add: zeroPad_def)
qed

lemma isLeap_pivot:
  assumes "isLeap y"
  shows "isLeap (if 69 \<le> \<bar>y\<bar> mod 100 then \<bar>y\<bar> mod 100 + 1900 else \<bar>y\<bar> mod 100 + 2000)"
proof -
  define r where "r = \<bar>y\<bar> mod 100"
  have r: "0 \<le> r" "r < 100" by (simp_all add: r_def)
  from assms have "y mod 4 = 0" by (simp add: isLeap_def)
  then have "4 dvd \<bar>y\<bar>" by (simp add: mod_eq_0_iff_dvd)
  moreover have "(4::int) dvd 100" by simp
  ultimately have r4: "4 dvd r" unfolding r_def by (simp add: dvd_mod_iff)
  have "(r + 19 * 100) mod 100 = r mod 100" "(r + 20 * 100) mod 100 = r mod 100"
    by (rule mod_mult_self1)+
  with r have m100: "(r + 1900) mod 100 = r" "(r + 2000) mod 100 = r" by simp_all
  from r4 have m4: "(r + 1900) mod 4 = 0" "(r + 2000) mod 4 = 0"
    by (simp_all add: mod_eq_0_iff_dvd)
  show ?thesis
  proof (cases "69 \<le> r")
    case True
    with m100 m4 show ?thesis by (simp add: isLeap_def r_def [symmetric])
  next
    case False
    show ?thesis
    proof (cases "r = 0")
      case True
      with False show ?thesis by (simp add: isLeap_def r_def [symmetric])
    next
      case nz: False
      with False m100 m4 show ?thesis by (simp add: isLeap_def r_def [symmetric])
    qed
  qed
qed

lemma daysIn_pivot:
  "daysIn m y \<le> daysIn m (if 69 \<le> \<bar>y\<bar> mod 100 then \<bar>y\<bar> mod 100 + 1900 else \<bar>y\<bar> mod 100 + 2000)"
  using isLeap_pivot [of y] by (auto simp: daysIn_def)

lemma atoi_two_digits:
  "a < 10 \<Longrightarrow> b < 10 \<Longrightarrow> atoi [digitChar a, digitChar b] = Some (int (a * 10 + b))"
  using digitChar_digit [of a] digitChar_digit [of b]
  by (auto simp: atoi_def Let_def dest: isDigit_not_sign)

lemma getnum2_two_digits:
  "a < 10 \<Longrightarrow> b < 10 \<Longrightarrow>
   getnum2 (digitChar a # digitChar b # rest) = Some (int (a * 10 + b), rest)"
  using digitChar_digit [of a] digitChar_digit [of b]
  by (simp add: getnum2_def)

lemma Format060102_valid:
  assumes "validDate t"
  shows "Format060102 t =
    [digitChar (nat (\<bar>year t\<bar> mod 100) div 10), digitChar (nat (\<bar>year t\<bar> mod 100) mod 10),
     digitChar (nat (month t) div 10), digitChar (nat (month t) mod 10),
     digitChar (nat (day t) div 10), digitChar (nat (day t) mod 10)]"
proof -
  have y: "nat (\<bar>year t\<bar> mod 100) < 100" by simp
  from assms have m: "nat (month t) < 100" by (auto simp: validDate_def)
  from assms daysIn_bounds [of "month t" "year t"] have d: "nat (day t) < 100"
    by (auto simp: validDate_def)
  show ?thesis by (simp add: Format060102_def zeroPad_2 [OF y] zeroPad_2 [OF m] zeroPad_2 [OF d])
qed

lemma length_Format060102: "validDate t \<Longrightarrow> length (Format060102 t) = 6"
  by (simp add: Format060102_valid)

lemma Format060102_digits: "list_all isDigit (Format060102 t)"
  by (simp add: Format060102_def zeroPad_digits)

lemma Parse_Format:
  assumes "validDate t"
  shows "Parse060102 (Format060102 t) =
    Inr (t\<lparr>year := (if 69 \<le> \<bar>year t\<bar> mod 100 then \<bar>year t\<bar> mod 100 + 1900
                      else \<bar>year t\<bar> mod 100 + 2000)\<rparr>)"
proof -
  define yy where "yy = nat (\<bar>year t\<bar> mod 100)"
  define mm where "mm = nat (month t)"
  define dd where "dd = nat (day t)"
  define p where "p = (if 69 \<le> \<bar>year t\<bar> mod 100 then \<bar>year t\<bar> mod 100 + 1900
                      else \<bar>year t\<bar> mod 100 + 2000)"
  have yy: "yy < 100" "int yy = \<bar>year t\<bar> mod 100" by (simp_all add: yy_def)
  from assms have mm: "mm < 100" "int mm = month t" "1 \<le> month t" "month t \<le> 12"
    by (auto simp: mm_def validDate_def)
  from assms daysIn_bounds [of "month t" "year t"]
  have dd: "dd < 100" "int dd = day t" "1 \<le> day t" "day t \<le> daysIn (month t) (year t)"
    by (auto simp: dd_def validDate_def)
  have dp: "day t \<le> daysIn (month t) p"
    using dd(4) daysIn_pivot [of "month t" "year t"] by (simp add: p_def)
  have f: "Format060102 t =
      [digitChar (yy div 10), digitChar (yy mod 10), digitChar (mm div 10),
       digitChar (mm mod 10), digitChar (dd div 10), digitChar (dd mod 10)]"
    using Format060102_valid [OF assms] by (simp add: yy_def mm_def dd_def)
  have a: "atoi [digitChar (yy div 10), digitChar (yy mod 10)] = Some (int yy)"
    using yy(1) by (simp add: atoi_two_digits)
  have g1: "getnum2 [digitChar (mm div 10), digitChar (mm mod 10), digitChar (dd div 10),
       digitChar (dd mod 10)] = Some (month t, [digitChar (dd div 10), digitChar (dd mod 10)])"
    using mm(1,2) by (simp add: getnum2_two_digits)
  have g2: "getnum2 [digitChar (dd div 10), digitChar (dd mod 10)] = Some (day t, [])"
    using dd(1,2) by (simp add: getnum2_two_digits)
  have "Date p (month t) (day t) = \<lparr>year = p, month = month t, day = day t\<rparr>"
    using mm(3,4) dd(3) dp by (rule Date_in_range)
  then have "Parse060102 (Format060102 t) = Inr \<lparr>year = p, month = month t, day = day t\<rparr>"
    using a g1 g2 mm(3,4) dd(3) dp yy(2)
    by (simp add: Parse060102_def f Let_def p_def)
  then show ?thesis by (simp add: p_def)
qed

section \<open>Properties of the package\<close>

subsection \<open>Errors and finalisation\<close>

lemma Parse060102_error: "Parse060102 v = Inl e \<Longrightarrow> e = ParseError v"
  by (auto simp: Parse060102_def Let_def split: if_splits option.splits prod.splits)

lemma Parse060102_valid: "Parse060102 v = Inr t \<Longrightarrow> validDate t"
  by (auto simp: Parse060102_def Let_def Date_valid split: if_splits option.splits prod.splits)

lemma ParseInt_error: "ParseInt s bitSize = Inl e \<Longrightarrow> \<exists>k. e = NumError ''ParseInt'' s k"
  by (auto simp: ParseInt_def Let_def split: if_splits sum.splits numerr.splits)

lemma CalculateLuhn_range: "0 \<le> CalculateLuhn n \<and> CalculateLuhn n \<le> 9"
proof -
  have "0 \<le> checksum n" and "checksum n < 10" by (simp_all add: checksum_def)
  then show ?thesis by (simp add: CalculateLuhn_def Let_def)
qed

lemma finalize_Inr:
  "finalize draft = Inr idn \<Longrightarrow>
   \<exists>n. ParseInt (partialString draft) 64 = Inr n \<and> luhnValue idn = CalculateLuhn n \<and>
       idn = draft\<lparr>luhnValue := CalculateLuhn n\<rparr>"
  by (auto simp: finalize_def Let_def split: sum.splits if_splits)

lemma partialString_luhnValue [simp]: "partialString (idn\<lparr>luhnValue := l\<rparr>) = partialString idn"
  by (simp add: partialString_def)

lemma NewIDNumber_Inr:
  "NewIDNumber opts = Inr idn \<Longrightarrow>
   \<exists>draft. applyOptions opts newDraft = (draft, None) \<and> finalize draft = Inr idn"
  by (auto simp: NewIDNumber_def split: prod.splits option.splits)

subsection \<open>Evaluation and distinct options\<close>

text \<open>The defining equations, for evaluating the model on concrete inputs.\<close>

lemmas eval_defs = NewID_def NewIDNumber_def finalize_def partialString_def String_def SetDate_def
  SetGender_def setCitizenship_def SetFromString_def Date_def normDay.simps daysIn_def isLeap_def
  Format060102_def zeroPad_def digitsOf.simps fmtD_def fmtD04_def digitChar_def digitVal_def
  isDigit_def ParseInt_def ParseUint_def CalculateLuhn_def checksum_def checksumLoop.simps
  newDraft_def zeroTime_def Citizen_def PermanentResident_def slice_def Parse060102_def atoi_def
  getnum2_def Let_def RandomIDNumber_def Unix_def unixDays_def daysBeforeMonth_def timeUnix_def
  genderOption_def citizenOption_def SetRandomMale_def SetRandomFemale_def randomMale_def
  randomFemale_def SetCitizen_def SetResident_def minMale_def minFemale_def

lemma SetRandomMale_not_Female: "SetRandomMale r \<noteq> SetRandomFemale r"
proof
  assume "SetRandomMale r = SetRandomFemale r"
  then have "gender (fst (SetRandomMale r newDraft)) = gender (fst (SetRandomFemale r newDraft))"
    by simp
  then show False
    by (simp add: SetRandomMale_def SetRandomFemale_def SetGender_def randomMale_def
        randomFemale_def minMale_def minFemale_def)
qed

lemma SetCitizen_not_Resident: "SetCitizen \<noteq> SetResident"
proof
  assume "SetCitizen = SetResident"
  then have "citizenship (fst (SetCitizen newDraft)) = citizenship (fst (SetResident newDraft))"
    by simp
  then show False
    by (simp add: SetCitizen_def SetResident_def setCitizenship_def Citizen_def
        PermanentResident_def)
qed

subsection \<open>The string form and parsing it back\<close>

lemma fmtD_digit: "0 \<le> c \<Longrightarrow> c \<le> 9 \<Longrightarrow> fmtD c = [digitChar (nat c)]"
  by (subst fmtD_def, subst digitsOf.simps) auto

lemma ParseInt_fmtD_digit: "0 \<le> c \<Longrightarrow> c \<le> 9 \<Longrightarrow> ParseInt (fmtD c) 32 = Inr c"
proof -
  assume c: "0 \<le> c" "c \<le> 9"
  then have "nat c < 10" by simp
  from digitChar_digit [OF this] c show ?thesis
    by (subst ParseInt_digits) (simp_all add: fmtD_digit)
qed

lemma length_fmtD04: "0 \<le> g \<Longrightarrow> g \<le> 9999 \<Longrightarrow> length (fmtD04 g) = 4"
proof -
  assume g: "0 \<le> g" "g \<le> 9999"
  then have "nat g < 10 ^ 4" by simp
  then have "length (zeroPad 4 (nat g)) = 4" by (rule length_zeroPad) simp
  with g show ?thesis by (simp add: fmtD04_def)
qed

lemma ParseInt_fmtD04: "0 \<le> g \<Longrightarrow> g \<le> 9999 \<Longrightarrow> ParseInt (fmtD04 g) 32 = Inr g"
proof -
  assume g: "0 \<le> g" "g \<le> 9999"
  then have "fmtD04 g = zeroPad 4 (nat g)" by (simp add: fmtD04_def)
  moreover have "ParseInt (zeroPad 4 (nat g)) 32 = Inr (int (decAcc 0 (zeroPad 4 (nat g))))"
    using g by (intro ParseInt_digits) (simp_all add: zeroPad_not_Nil zeroPad_digits decAcc_zeroPad)
  ultimately show ?thesis using g by (simp add: decAcc_zeroPad)
qed

lemma String_slices:
  assumes "validDate (birthdate idn)"
    and "0 \<le> gender idn" "gender idn \<le> 9999"
    and "0 \<le> citizenship idn" "citizenship idn \<le> 9"
    and "0 \<le> luhnValue idn" "luhnValue idn \<le> 9"
  shows "length (String idn) = 13"
    and "slice (String idn) 0 6 = Format060102 (birthdate idn)"
    and "slice (String idn) 6 10 = fmtD04 (gender idn)"
    and "slice (String idn) 10 11 = fmtD (citizenship idn)"
    and "slice (String idn) 12 13 = fmtD (luhnValue idn)"
    and "String idn ! 11 = CHR ''8''"
proof -
  note lf = length_Format060102 [OF assms(1)]
  note lg = length_fmtD04 [OF assms(2,3)]
  note c = fmtD_digit [OF assms(4,5)]
  note l = fmtD_digit [OF assms(6,7)]
  show "length (String idn) = 13" by (simp add: String_def lf lg c l)
  show "slice (String idn) 0 6 = Format060102 (birthdate idn)"
    by (simp add: String_def slice_def lf)
  show "slice (String idn) 6 10 = fmtD04 (gender idn)"
    by (simp add: String_def slice_def lf lg)
  show "slice (String idn) 10 11 = fmtD (citizenship idn)"
    by (simp add: String_def slice_def lf lg c)
  show "slice (String idn) 12 13 = fmtD (luhnValue idn)"
    by (simp add: String_def slice_def lf lg c l)
  show "String idn ! 11 = CHR ''8''"
    by (simp add: String_def lf lg c l nth_append)
qed

lemma partialString_parse:
  assumes "validDate (birthdate idn)"
    and "0 \<le> gender idn" "gender idn \<le> 9999"
    and "0 \<le> citizenship idn" "citizenship idn \<le> 9"
  shows "ParseInt (partialString idn) 64 = Inr (int (decAcc 0 (partialString idn)))"
proof (rule ParseInt_digits)
  note lf = length_Format060102 [OF assms(1)]
  note lg = length_fmtD04 [OF assms(2,3)]
  note c = fmtD_digit [OF assms(4,5)]
  have c9: "nat (citizenship idn) < 10" using assms(4,5) by simp
  show "partialString idn \<noteq> []" by (simp add: partialString_def)
  show digits: "list_all isDigit (partialString idn)"
    using assms(2) digitChar_digit [OF c9]
    by (simp add: partialString_def Format060102_digits fmtD04_def zeroPad_digits c isDigit_def)
  have "length (partialString idn) = 12" by (simp add: partialString_def lf lg c)
  with decAcc_less [OF digits] have "decAcc 0 (partialString idn) < 10 ^ 12" by simp
  then show "decAcc 0 (partialString idn) < 2 ^ (64 - 1)" by simp
qed simp_all

lemma pivot_Format:
  "Format060102 (t\<lparr>year := (if 69 \<le> \<bar>year t\<bar> mod 100 then \<bar>year t\<bar> mod 100 + 1900
                                else \<bar>year t\<bar> mod 100 + 2000)\<rparr>) = Format060102 t"
proof -
  define r where "r = \<bar>year t\<bar> mod 100"
  have r: "0 \<le> r" "r < 100" by (simp_all add: r_def)
  have "(r + 19 * 100) mod 100 = r mod 100" "(r + 20 * 100) mod 100 = r mod 100"
    by (rule mod_mult_self1)+
  with r have "\<bar>r + 1900\<bar> mod 100 = r" "\<bar>r + 2000\<bar> mod 100 = r" by simp_all
  then show ?thesis by (simp add: Format060102_def r_def [symmetric])
qed

lemma pivot_valid:
  assumes "validDate t"
  shows "validDate (t\<lparr>year := (if 69 \<le> \<bar>year t\<bar> mod 100 then \<bar>year t\<bar> mod 100 + 1900
                                else \<bar>year t\<bar> mod 100 + 2000)\<rparr>)"
  using assms daysIn_pivot [of "month t" "year t"] by (simp add: validDate_def)

lemma pivot_same:
  "1969 \<le> (y::int) \<Longrightarrow> y \<le> 2068 \<Longrightarrow>
   (if 69 \<le> \<bar>y\<bar> mod 100 then \<bar>y\<bar> mod 100 + 1900 else \<bar>y\<bar> mod 100 + 2000) = y"
proof -
  assume y: "1969 \<le> y" "y \<le> 2068"
  show ?thesis
  proof (cases "y < 2000")
    case True
    have "(y - 1900 + 19 * 100) mod 100 = (y - 1900) mod 100" by (rule mod_mult_self1)
    with True y have "\<bar>y\<bar> mod 100 = y - 1900" by simp
    with y show ?thesis by simp
  next
    case False
    have "(y - 2000 + 20 * 100) mod 100 = (y - 2000) mod 100" by (rule mod_mult_self1)
    with False y have "\<bar>y\<bar> mod 100 = y - 2000" by simp
    with y show ?thesis by simp
  qed
qed

text \<open>
  Parsing the string form of a finished IDNumber and finalising again gives the same
  IDNumber, with the birth year moved into 1969..2068.
\<close>

lemma reparse:
  assumes v: "validDate (birthdate idn)"
    and g: "0 \<le> gender idn" "gender idn \<le> 9999"
    and c: "0 \<le> citizenship idn" "citizenship idn \<le> 9"
    and l: "luhnValue idn = CalculateLuhn (int (decAcc 0 (partialString idn)))"
  shows "NewIDNumber [SetFromString (String idn)] =
    Inr (idn\<lparr>birthdate := (birthdate idn)\<lparr>year :=
        (if 69 \<le> \<bar>year (birthdate idn)\<bar> mod 100 then \<bar>year (birthdate idn)\<bar> mod 100 + 1900
         else \<bar>year (birthdate idn)\<bar> mod 100 + 2000)\<rparr>\<rparr>)"
proof -
  define bd where "bd = (birthdate idn)\<lparr>year :=
        (if 69 \<le> \<bar>year (birthdate idn)\<bar> mod 100 then \<bar>year (birthdate idn)\<bar> mod 100 + 1900
         else \<bar>year (birthdate idn)\<bar> mod 100 + 2000)\<rparr>"
  define n where "n = int (decAcc 0 (partialString idn))"
  from l CalculateLuhn_range [of n] have l9: "0 \<le> luhnValue idn" "luhnValue idn \<le> 9"
    by (simp_all add: n_def)
  note s = String_slices [OF v g c l9]
  have p: "Parse060102 (Format060102 (birthdate idn)) = Inr bd"
    unfolding bd_def by (rule Parse_Format [OF v])
  have "SetFromString (String idn) newDraft =
      (newDraft\<lparr>birthdate := bd, gender := gender idn, citizenship := citizenship idn,
         luhnValue := luhnValue idn\<rparr>, None)"
    by (simp add: SetFromString_def s p ParseInt_fmtD04 [OF g] ParseInt_fmtD_digit [OF c]
        ParseInt_fmtD_digit [OF l9])
  moreover have "newDraft\<lparr>birthdate := bd, gender := gender idn, citizenship := citizenship idn,
         luhnValue := luhnValue idn\<rparr> = idn\<lparr>birthdate := bd\<rparr>"
    by (simp add: newDraft_def)
  ultimately have a: "applyOptions [SetFromString (String idn)] newDraft = (idn\<lparr>birthdate := bd\<rparr>, None)"
    by simp
  have ps: "partialString (idn\<lparr>birthdate := bd\<rparr>) = partialString idn"
    by (simp add: partialString_def bd_def pivot_Format)
  have "ParseInt (partialString idn) 64 = Inr n"
    unfolding n_def by (rule partialString_parse [OF v g c])
  with l have "finalize (idn\<lparr>birthdate := bd\<rparr>) = Inr (idn\<lparr>birthdate := bd\<rparr>)"
    by (simp add: finalize_def ps Let_def n_def)
  with a show ?thesis by (simp add: NewIDNumber_def bd_def)
qed

subsection \<open>Valid birth dates and finalising a draft\<close>

lemma SetFromString_valid:
  "validDate (birthdate d) \<Longrightarrow> validDate (birthdate (fst (SetFromString ids d)))"
  by (auto simp: SetFromString_def split: sum.splits dest: Parse060102_valid)

lemma packageOption_valid:
  "packageOption c \<Longrightarrow> validDate (birthdate d) \<Longrightarrow> validDate (birthdate (fst (c d)))"
  by (induction rule: packageOption.induct)
     (simp_all add: SetDate_def SetGender_def setCitizenship_def Date_valid SetFromString_valid)

lemma applyOptions_valid:
  "list_all packageOption opts \<Longrightarrow> validDate (birthdate d) \<Longrightarrow>
   validDate (birthdate (fst (applyOptions opts d)))"
proof (induction opts arbitrary: d)
  case Nil
  then show ?case by simp
next
  case (Cons c opts)
  then have "validDate (birthdate (fst (c d)))" by (simp add: packageOption_valid)
  with Cons show ?case by (cases "c d") (auto split: option.splits)
qed

lemma NewIDNumber_valid:
  assumes "list_all packageOption opts" "NewIDNumber opts = Inr idn"
  shows "validDate (birthdate idn)"
proof -
  from assms(2) obtain draft where a: "applyOptions opts newDraft = (draft, None)"
    and f: "finalize draft = Inr idn"
    using NewIDNumber_Inr by blast
  have "validDate (birthdate newDraft)" by (simp add: newDraft_def zeroTime_valid)
  with assms(1) have "validDate (birthdate (fst (applyOptions opts newDraft)))"
    by (rule applyOptions_valid)
  with a have "validDate (birthdate draft)" by simp
  moreover from finalize_Inr [OF f] have "birthdate idn = birthdate draft" by auto
  ultimately show ?thesis by simp
qed

lemma finalize_unset:
  assumes "validDate (birthdate draft)"
    and "0 \<le> gender draft" "gender draft \<le> 9999"
    and "0 \<le> citizenship draft" "citizenship draft \<le> 9"
    and "luhnValue draft \<le> 0"
  shows "finalize draft =
    Inr (draft\<lparr>luhnValue := CalculateLuhn (int (decAcc 0 (partialString draft)))\<rparr>)"
  using partialString_parse [OF assms(1-5)] assms(6) by (simp add: finalize_def Let_def)

subsection \<open>The numeric sub-fields of an ID string\<close>

lemma parseUintLoop_short:
  "n * 10 ^ length s + 10 ^ length s \<le> maxVal + 1 \<Longrightarrow> maxVal < 2 ^ 64 \<Longrightarrow>
   parseUintLoop maxVal n s = (if list_all isDigit s then Inr (decAcc n s) else Inl ErrSyntax)"
proof (induction s arbitrary: n)
  case Nil
  show ?case by simp
next
  case (Cons c cs)
  show ?case
  proof (cases "isDigit c")
    case False
    then show ?thesis by simp
  next
    case True
    define n' where "n' = n * 10 + digitVal c"
    from True have "digitVal c \<le> 9" by (rule isDigit_digitVal)
    then have "n' + 1 \<le> (n + 1) * 10" by (simp add: n'_def)
    then have "(n' + 1) * 10 ^ length cs \<le> (n + 1) * 10 * 10 ^ length cs"
      by (rule mult_le_mono1)
    also have "\<dots> = n * 10 ^ length (c # cs) + 10 ^ length (c # cs)"
      by (simp add: algebra_simps)
    also have "\<dots> \<le> maxVal + 1" by (rule Cons.prems(1))
    finally have bound: "n' * 10 ^ length cs + 10 ^ length cs \<le> maxVal + 1"
      by (simp add: algebra_simps)
    have "1 \<le> (10::nat) ^ length cs" by simp
    then have "(n' + 1) * 1 \<le> (n' + 1) * 10 ^ length cs" by (rule mult_le_mono2)
    also have "\<dots> = n' * 10 ^ length cs + 10 ^ length cs" by (simp add: algebra_simps)
    finally have "n' \<le> maxVal" using bound by simp
    with Cons.prems(2) have small: "n' < 2 ^ 64" by linarith
    then have "n < (2 ^ 64 - 1) div 10 + 1" by (simp add: n'_def)
    with True small \<open>n' \<le> maxVal\<close> Cons.IH [OF bound Cons.prems(2)]
    show ?thesis by (simp add: n'_def)
  qed
qed

lemma ParseUint_short:
  assumes "length s \<le> 4"
  shows "ParseUint s 32 =
    (if s \<noteq> [] \<and> list_all isDigit s then Inr (decAcc 0 s) else Inl ErrSyntax)"
proof -
  have "(10::nat) ^ length s \<le> 10 ^ 4" using assms by (intro power_increasing) simp_all
  then have "0 * 10 ^ length s + 10 ^ length s \<le> (2 ^ 32 - 1) + (1::nat)" by simp
  then have "parseUintLoop (2 ^ 32 - 1) 0 s =
      (if list_all isDigit s then Inr (decAcc 0 s) else Inl ErrSyntax)"
    by (rule parseUintLoop_short) simp
  then show ?thesis by (simp add: ParseUint_def)
qed

lemma decAcc_short:
  assumes "length s \<le> 4" "list_all isDigit s"
  shows "decAcc 0 s < 10000"
proof -
  have "(10::nat) ^ length s \<le> 10 ^ 4" using assms(1) by (intro power_increasing) simp_all
  with decAcc_less [OF assms(2)] show ?thesis by simp
qed

lemma ParseInt_short:
  assumes "length f \<le> 4"
  shows "ParseInt f 32 =
    (if signedDigits f then Inr (signedVal f) else Inl (NumError ''ParseInt'' f ErrSyntax))"
proof (cases f)
  case Nil
  then show ?thesis by (simp add: ParseInt_def signedDigits_def)
next
  case (Cons a r)
  have r: "length r \<le> 4" using assms Cons by simp
  note pr = ParseUint_short [OF r] and pf = ParseUint_short [OF assms]
  show ?thesis
  proof (cases "a = CHR ''+'' \<or> a = CHR ''-''")
    case True
    then show ?thesis
      using pr decAcc_short [OF r] Cons
      by (auto simp: ParseInt_def signedDigits_def signedVal_def Let_def)
  next
    case False
    then show ?thesis
      using pf decAcc_short [OF assms] Cons
      by (auto simp: ParseInt_def signedDigits_def signedVal_def Let_def)
  qed
qed

lemma signedVal_bound:
  assumes "length f \<le> 4" "signedDigits f"
  shows "signedVal f \<le> 9999"
proof (cases f)
  case Nil
  with assms(2) show ?thesis by (simp add: signedDigits_def)
next
  case (Cons a r)
  have r: "length r \<le> 4" using assms Cons by simp
  show ?thesis
  proof (cases "a = CHR ''+'' \<or> a = CHR ''-''")
    case True
    with assms(2) Cons have "list_all isDigit r" by (auto simp: signedDigits_def)
    from decAcc_short [OF r this] True Cons show ?thesis by (auto simp: signedVal_def)
  next
    case False
    with assms(2) Cons have "list_all isDigit f" by (auto simp: signedDigits_def)
    from decAcc_short [OF assms(1) this] False Cons show ?thesis by (auto simp: signedVal_def)
  qed
qed

lemma ParseInt_byte:
  "ParseInt [c] 32 =
    (if isDigit c then Inr (int (digitVal c)) else Inl (NumError ''ParseInt'' [c] ErrSyntax))"
proof -
  have "signedDigits [c] = isDigit c"
    by (auto simp: signedDigits_def dest: isDigit_not_sign)
  moreover have "isDigit c \<Longrightarrow> signedVal [c] = int (digitVal c)"
    by (auto simp: signedVal_def dest: isDigit_not_sign)
  ultimately show ?thesis using ParseInt_short [of "[c]"] by auto
qed

lemma slice_byte: "i < length s \<Longrightarrow> slice s i (Suc i) = [s ! i]"
  by (simp add: slice_def take_Suc_conv_app_nth)

lemma length_slice: "j \<le> length s \<Longrightarrow> length (slice s i j) = j - i"
  by (simp add: slice_def)

text \<open>What \<open>SetFromString\<close> does with a 13-byte string whose date parses.\<close>

lemma SetFromString_fields:
  assumes "length ids = 13" "Parse060102 (slice ids 0 6) = Inr t"
  shows "SetFromString ids idNumber =
    (if \<not> signedDigits (slice ids 6 10) then
       (idNumber\<lparr>birthdate := t\<rparr>, Some (NumError ''ParseInt'' (slice ids 6 10) ErrSyntax))
     else if \<not> isDigit (ids ! 10) then
       (idNumber\<lparr>birthdate := t, gender := signedVal (slice ids 6 10)\<rparr>,
        Some (NumError ''ParseInt'' [ids ! 10] ErrSyntax))
     else if \<not> isDigit (ids ! 12) then
       (idNumber\<lparr>birthdate := t, gender := signedVal (slice ids 6 10),
          citizenship := int (digitVal (ids ! 10))\<rparr>,
        Some (NumError ''ParseInt'' [ids ! 12] ErrSyntax))
     else
       (idNumber\<lparr>birthdate := t, gender := signedVal (slice ids 6 10),
          citizenship := int (digitVal (ids ! 10)), luhnValue := int (digitVal (ids ! 12))\<rparr>,
        None))"
proof -
  have g: "length (slice ids 6 10) \<le> 4" using assms(1) by (simp add: length_slice)
  have c: "slice ids 10 11 = [ids ! 10]" using slice_byte [of 10 ids] assms(1) by simp
  have l: "slice ids 12 13 = [ids ! 12]" using slice_byte [of 12 ids] assms(1) by simp
  show ?thesis
    by (simp add: SetFromString_def assms ParseInt_short [OF g] c l ParseInt_byte)
qed

subsection \<open>Byte 11 and negative gender codes\<close>

lemma slice_update_after: "j \<le> k \<Longrightarrow> slice (s[k := c]) i j = slice s i j"
proof (cases "i \<le> k")
  case True
  assume "j \<le> k"
  then have "j - i \<le> k - i" by simp
  with True show ?thesis by (simp add: slice_def drop_update_swap)
next
  case False
  assume "j \<le> k"
  with False show ?thesis by (simp add: slice_def)
qed

lemma slice_update_before: "k < i \<Longrightarrow> slice (s[k := c]) i j = slice s i j"
  by (simp add: slice_def)

lemma partialString_negative:
  assumes "validDate (birthdate draft)" "gender draft < 0"
  shows "\<exists>e. ParseInt (partialString draft) 64 = Inl e"
proof -
  define f where "f = Format060102 (birthdate draft)"
  define rest where "rest = fmtD04 (gender draft) @ fmtD (citizenship draft) @ ''8''"
  have len: "length f = 6" unfolding f_def by (rule length_Format060102 [OF assms(1)])
  have dig: "list_all isDigit f" unfolding f_def by (rule Format060102_digits)
  from len obtain a r where f: "f = a # r" by (cases f) auto
  with dig have a: "a \<noteq> CHR ''+''" "a \<noteq> CHR ''-''" by (auto dest: isDigit_not_sign)
  have "\<not> isDigit (CHR ''-'')" by (simp add: isDigit_def)
  then have "\<not> list_all isDigit (partialString draft)"
    using assms(2) by (simp add: partialString_def fmtD04_def)
  then obtain e where "parseUintLoop (2 ^ 64 - 1) 0 (partialString draft) = Inl e"
    using parseUintLoop_not_digits by blast
  moreover have "partialString draft = a # r @ rest"
    by (simp add: partialString_def rest_def f [symmetric] f_def)
  ultimately show ?thesis
    using a by (cases e) (simp_all add: ParseInt_def ParseUint_def Let_def)
qed

section \<open>The claims of the specification\<close>

text \<open>
  C4. Every IDNumber that \<open>NewIDNumber\<close> returns, for any list of options, has as its
  \<open>luhnValue\<close> the check digit that \<open>CalculateLuhn\<close> computes over the number written
  by the partial string: the birth date as YYMMDD, the gender code with at least four
  digits, the citizenship and the digit 8.
\<close>

theorem checksum_invariant:
  assumes "NewIDNumber configOptions = Inr idn"
  shows "\<exists>n. ParseInt (partialString idn) 64 = Inr n \<and> luhnValue idn = CalculateLuhn n"
proof -
  from assms obtain draft where "finalize draft = Inr idn"
    using NewIDNumber_Inr by blast
  then obtain n where "ParseInt (partialString draft) 64 = Inr n"
    and "luhnValue idn = CalculateLuhn n" and "idn = draft\<lparr>luhnValue := CalculateLuhn n\<rparr>"
    using finalize_Inr by blast
  then show ?thesis by auto
qed

theorem checksum_invariant_witness:
  "NewIDNumber [SetFromString ''8107095005083''] =
     Inr \<lparr>birthdate = \<lparr>year = 1981, month = 7, day = 9\<rparr>, gender = 5005, citizenship = 0,
          luhnValue = 3\<rparr> \<and>
   (\<exists>n. ParseInt ''810709500508'' 64 = Inr n \<and> 3 = CalculateLuhn n)"
proof -
  have r: "NewIDNumber [SetFromString ''8107095005083''] =
     Inr \<lparr>birthdate = \<lparr>year = 1981, month = 7, day = 9\<rparr>, gender = 5005, citizenship = 0,
          luhnValue = 3\<rparr>"
    by (simp add: eval_defs)
  have p: "partialString \<lparr>birthdate = \<lparr>year = 1981, month = 7, day = 9\<rparr>, gender = 5005,
     citizenship = 0, luhnValue = 3\<rparr> = ''810709500508''"
    by (simp add: eval_defs)
  from checksum_invariant [OF r] p show ?thesis using r by simp
qed

text \<open>
  C5. Scenario A: \<open>NewID(9, 7, 1981, 5005, Citizen)\<close> succeeds and the string form of the
  result is \<open>8107095005083\<close>.
\<close>

theorem scenario_A:
  "\<exists>idn. NewID 9 7 1981 5005 Citizen = Inr idn \<and> String idn = ''8107095005083''"
  by (simp add: eval_defs)

text \<open>
  C1. The string \<open>8107095005080\<close> supplies the check digit 0 where the computed check digit
  is 3 (scenario A). \<open>NewIDNumber\<close> does not fail with \<open>ErrInvalidLuhnNumber\<close>: the test
  \<open>luhnValue > 0\<close> takes the supplied 0 for an absent digit and replaces it by 3.
\<close>

theorem supplied_zero_not_validated:
  "NewIDNumber [SetFromString ''8107095005080''] =
     Inr \<lparr>birthdate = \<lparr>year = 1981, month = 7, day = 9\<rparr>, gender = 5005, citizenship = 0,
          luhnValue = 3\<rparr>"
  by (simp add: eval_defs)

text \<open>
  C3. Over all values \<open>r\<close> that \<open>rand.Intn(4999)\<close> can return (\<open>0 \<le> r < 4999\<close>), the
  codes of \<open>randomMale\<close> are exactly 5000..9998 and the codes of \<open>randomFemale\<close> exactly
  0..4998: \<open>maxMale = 9999\<close> and \<open>maxFemale = 4999\<close> are never drawn.
\<close>

theorem random_gender_ranges:
  "randomMale ` {0..<4999} = {5000..<9999} \<and> randomFemale ` {0..<4999} = {0..<4999}"
proof -
  have "(\<lambda>r::int. 5000 + r) ` {0..<4999} = {5000..<9999}"
    using image_add_atLeastLessThan [of 5000 0 4999] by simp
  moreover have "(\<lambda>r::int. 0 + r) ` {0..<4999} = {0..<4999}" by simp
  ultimately show ?thesis
    unfolding randomMale_def randomFemale_def minMale_def minFemale_def by simp
qed

text \<open>
  C9. Of the 100 values \<open>rand.Intn(100)\<close> can return, 49 (51..99) pass the test
  \<open>> 50\<close> and choose the female gender option, and 49 choose \<open>SetCitizen\<close>; the other 51
  choose the male option and \<open>SetResident\<close>.
\<close>

theorem coin_split:
  "card {c. 0 \<le> c \<and> c < 100 \<and> genderOption c r = SetRandomFemale r} = 49 \<and>
   card {c. 0 \<le> c \<and> c < 100 \<and> genderOption c r = SetRandomMale r} = 51 \<and>
   card {c. 0 \<le> c \<and> c < 100 \<and> citizenOption c = SetCitizen} = 49 \<and>
   card {c. 0 \<le> c \<and> c < 100 \<and> citizenOption c = SetResident} = 51"
proof -
  note g = SetRandomMale_not_Female [of r] and c = SetCitizen_not_Resident
  have "{c. 0 \<le> c \<and> c < 100 \<and> genderOption c r = SetRandomFemale r} = {51..<100}"
    using g by (auto simp: genderOption_def)
  moreover have "{c. 0 \<le> c \<and> c < 100 \<and> genderOption c r = SetRandomMale r} = {0..<51}"
    using g by (auto simp: genderOption_def)
  moreover have "{c. 0 \<le> c \<and> c < 100 \<and> citizenOption c = SetCitizen} = {51..<100}"
    using c by (auto simp: citizenOption_def)
  moreover have "{c. 0 \<le> c \<and> c < 100 \<and> citizenOption c = SetResident} = {0..<51}"
    using c by (auto simp: citizenOption_def)
  ultimately show ?thesis by simp
qed

text \<open>
  C7. \<open>SetFromString\<close> returns \<open>ErrIncorrectIDStringLength\<close> exactly for the strings whose
  length is not 13, and then it has not touched the IDNumber.
\<close>

theorem length_precondition:
  "(length ids \<noteq> 13 \<longrightarrow> SetFromString ids idNumber = (idNumber, Some ErrIncorrectIDStringLength)) \<and>
   (length ids = 13 \<longrightarrow> snd (SetFromString ids idNumber) \<noteq> Some ErrIncorrectIDStringLength)"
  by (auto simp: SetFromString_def split: sum.splits
      dest!: Parse060102_error ParseInt_error)

theorem length_precondition_witness:
  "SetFromString ''81070950050'' newDraft = (newDraft, Some ErrIncorrectIDStringLength) \<and>
   snd (SetFromString ''81070950058x3'' newDraft) \<noteq> Some ErrIncorrectIDStringLength"
  using length_precondition [of "''81070950050''" newDraft]
    length_precondition [of "''81070950058x3''" newDraft]
  by simp

text \<open>
  C2, as the code has it. The string form keeps two digits of the birth year, and parsing
  moves them into 1969..2068; a gender code above 9999 makes the string longer than 13
  bytes. For an IDNumber that \<open>NewIDNumber\<close> built from the package's options, with a
  birth year in 1969..2068, a gender code in 0..9999 and a citizenship in 0..9, parsing
  its string form and finalising gives back the same IDNumber, field for field.
\<close>

theorem format_parse_roundtrip:
  assumes "list_all packageOption configOptions"
    and "NewIDNumber configOptions = Inr idn"
    and "1969 \<le> year (birthdate idn)" "year (birthdate idn) \<le> 2068"
    and "0 \<le> gender idn" "gender idn \<le> 9999"
    and "0 \<le> citizenship idn" "citizenship idn \<le> 9"
  shows "NewIDNumber [SetFromString (String idn)] = Inr idn"
proof -
  have v: "validDate (birthdate idn)" using assms(1,2) by (rule NewIDNumber_valid)
  from assms(2) obtain draft where "finalize draft = Inr idn"
    using NewIDNumber_Inr by blast
  then obtain n where "ParseInt (partialString draft) 64 = Inr n"
    and l: "luhnValue idn = CalculateLuhn n" and "idn = draft\<lparr>luhnValue := CalculateLuhn n\<rparr>"
    using finalize_Inr by blast
  then have "ParseInt (partialString idn) 64 = Inr n" by simp
  with partialString_parse [OF v assms(5-8)] have "n = int (decAcc 0 (partialString idn))"
    by simp
  with l have "luhnValue idn = CalculateLuhn (int (decAcc 0 (partialString idn)))" by simp
  from reparse [OF v assms(5-8) this] pivot_same [OF assms(3,4)] show ?thesis by simp
qed

theorem format_parse_roundtrip_witness:
  "list_all packageOption [SetDate 9 7 1981, SetGender 5005, setCitizenship Citizen] \<and>
   NewIDNumber [SetDate 9 7 1981, SetGender 5005, setCitizenship Citizen] =
     Inr \<lparr>birthdate = \<lparr>year = 1981, month = 7, day = 9\<rparr>, gender = 5005, citizenship = 0,
          luhnValue = 3\<rparr> \<and>
   NewIDNumber [SetFromString ''8107095005083''] =
     Inr \<lparr>birthdate = \<lparr>year = 1981, month = 7, day = 9\<rparr>, gender = 5005, citizenship = 0,
          luhnValue = 3\<rparr>"
proof -
  let ?opts = "[SetDate 9 7 1981, SetGender 5005, setCitizenship Citizen]"
  let ?idn = "\<lparr>birthdate = \<lparr>year = 1981, month = 7, day = 9\<rparr>, gender = 5005, citizenship = 0,
          luhnValue = 3\<rparr>"
  have p: "list_all packageOption ?opts" by (simp add: packageOption.intros)
  have r: "NewIDNumber ?opts = Inr ?idn" by (simp add: eval_defs)
  have s: "String ?idn = ''8107095005083''" by (simp add: eval_defs)
  from format_parse_roundtrip [OF p r] s p r show ?thesis by simp
qed

text \<open>
  The claim as stated fails for a birth year outside 1969..2068: \<open>NewID(9, 7, 1950, 5005,
  Citizen)\<close> succeeds, and parsing its string form gives the birth year 2050.
\<close>

theorem format_parse_roundtrip_counterexample:
  "NewID 9 7 1950 5005 Citizen =
     Inr \<lparr>birthdate = \<lparr>year = 1950, month = 7, day = 9\<rparr>, gender = 5005, citizenship = 0,
          luhnValue = 8\<rparr> \<and>
   String \<lparr>birthdate = \<lparr>year = 1950, month = 7, day = 9\<rparr>, gender = 5005, citizenship = 0,
          luhnValue = 8\<rparr> = ''5007095005088'' \<and>
   NewIDNumber [SetFromString ''5007095005088''] =
     Inr \<lparr>birthdate = \<lparr>year = 2050, month = 7, day = 9\<rparr>, gender = 5005, citizenship = 0,
          luhnValue = 8\<rparr>"
  by (simp add: eval_defs)

text \<open>
  C6. Whatever the four draws (the gender draw within the range of \<open>rand.Intn(4999)\<close>) and
  the time zone, \<open>RandomIDNumber\<close> returns an IDNumber and no error, and parsing the string
  form of that IDNumber and finalising succeeds as well, so it does not fail with
  \<open>ErrInvalidLuhnNumber\<close>.
\<close>

theorem RandomIDNumber_never_fails:
  assumes "0 \<le> genderDraw" "genderDraw < 4999"
  shows "\<exists>idn. RandomIDNumber offset secDraw genderCoin genderDraw citizenCoin = Inr idn \<and>
    (\<exists>idn'. NewIDNumber [SetFromString (String idn)] = Inr idn')"
proof -
  define t where "t = timeUnix offset (secDraw + Unix (Date 1970 1 0))"
  define g where "g = (if 50 < genderCoin then randomFemale genderDraw else randomMale genderDraw)"
  define c where "c = (if 50 < citizenCoin then Citizen else PermanentResident)"
  define draft where "draft = \<lparr>birthdate = t, gender = g, citizenship = c, luhnValue = - 1\<rparr>"
  define idn where
    "idn = draft\<lparr>luhnValue := CalculateLuhn (int (decAcc 0 (partialString draft)))\<rparr>"
  have v: "validDate t" unfolding t_def by (rule timeUnix_valid)
  have g: "0 \<le> g" "g \<le> 9999"
    using assms by (simp_all add: g_def randomFemale_def randomMale_def minFemale_def minMale_def)
  have c: "0 \<le> c" "c \<le> 9" by (simp_all add: c_def Citizen_def PermanentResident_def)
  have "applyOptions [SetDate (day t) (month t) (year t), genderOption genderCoin genderDraw,
      citizenOption citizenCoin] newDraft = (draft, None)"
    using Date_of_valid [OF v]
    by (simp add: SetDate_def genderOption_def citizenOption_def SetRandomFemale_def
        SetRandomMale_def SetCitizen_def SetResident_def SetGender_def setCitizenship_def
        newDraft_def draft_def g_def c_def)
  moreover have "finalize draft = Inr idn"
    unfolding idn_def by (rule finalize_unset) (simp_all add: draft_def v g c)
  ultimately have r: "RandomIDNumber offset secDraw genderCoin genderDraw citizenCoin = Inr idn"
    by (simp add: RandomIDNumber_def NewIDNumber_def Let_def t_def)
  have "luhnValue idn = CalculateLuhn (int (decAcc 0 (partialString idn)))"
    by (simp add: idn_def)
  moreover have "validDate (birthdate idn)" "0 \<le> gender idn" "gender idn \<le> 9999"
    "0 \<le> citizenship idn" "citizenship idn \<le> 9"
    by (simp_all add: idn_def draft_def v g c)
  ultimately have "\<exists>idn'. NewIDNumber [SetFromString (String idn)] = Inr idn'"
    using reparse [of idn] by simp
  with r show ?thesis by blast
qed

theorem RandomIDNumber_never_fails_witness:
  "(0::int) \<le> 1234 \<and> (1234::int) < 4999 \<and>
   RandomIDNumber 7200 5184000 51 1234 51 =
     Inr \<lparr>birthdate = \<lparr>year = 1970, month = 3, day = 1\<rparr>, gender = 1234, citizenship = 0,
          luhnValue = 2\<rparr> \<and>
   (\<exists>idn'. NewIDNumber [SetFromString (String \<lparr>birthdate = \<lparr>year = 1970, month = 3, day = 1\<rparr>,
      gender = 1234, citizenship = 0, luhnValue = 2\<rparr>)] = Inr idn')"
proof -
  have t: "timeUnix 7200 (5184000 + Unix (Date 1970 1 0)) = \<lparr>year = 1970, month = 3, day = 1\<rparr>"
    by (simp add: eval_defs)
  have n: "NewIDNumber [SetDate 1 3 1970, genderOption 51 1234, citizenOption 51] =
     Inr \<lparr>birthdate = \<lparr>year = 1970, month = 3, day = 1\<rparr>, gender = 1234, citizenship = 0,
          luhnValue = 2\<rparr>"
    by (simp add: eval_defs)
  have r: "RandomIDNumber 7200 5184000 51 1234 51 =
     Inr \<lparr>birthdate = \<lparr>year = 1970, month = 3, day = 1\<rparr>, gender = 1234, citizenship = 0,
          luhnValue = 2\<rparr>"
    unfolding RandomIDNumber_def Let_def t using n by simp
  from RandomIDNumber_never_fails [of 1234 7200 5184000 51 51] r show ?thesis by simp
qed

text \<open>
  C8, as the code has it. For a 13-byte string whose date parses, \<open>SetFromString\<close> reads
  the gender code, the citizenship and the Luhn digit with \<open>strconv.ParseInt\<close>, which
  takes one leading sign: each sub-field must be an optional \<open>+\<close> or \<open>-\<close> followed by
  digits only (so the four-byte gender code may be signed, and negative). The first
  sub-field that is not makes the option fail with a \<open>NumError\<close> that carries the
  function name \<open>ParseInt\<close>, the text of that sub-field and the syntax cause; the fields
  parsed before it stay stored.
\<close>

theorem numeric_subfields:
  assumes "length ids = 13" "Parse060102 (slice ids 0 6) = Inr t"
  shows "SetFromString ids idNumber =
    (if \<not> signedDigits (slice ids 6 10) then
       (idNumber\<lparr>birthdate := t\<rparr>, Some (NumError ''ParseInt'' (slice ids 6 10) ErrSyntax))
     else if \<not> isDigit (ids ! 10) then
       (idNumber\<lparr>birthdate := t, gender := signedVal (slice ids 6 10)\<rparr>,
        Some (NumError ''ParseInt'' [ids ! 10] ErrSyntax))
     else if \<not> isDigit (ids ! 12) then
       (idNumber\<lparr>birthdate := t, gender := signedVal (slice ids 6 10),
          citizenship := int (digitVal (ids ! 10))\<rparr>,
        Some (NumError ''ParseInt'' [ids ! 12] ErrSyntax))
     else
       (idNumber\<lparr>birthdate := t, gender := signedVal (slice ids 6 10),
          citizenship := int (digitVal (ids ! 10)), luhnValue := int (digitVal (ids ! 12))\<rparr>,
        None))"
  using assms by (rule SetFromString_fields)

theorem numeric_subfields_witness:
  "length ''81070912a4083'' = 13 \<and>
   Parse060102 (slice ''81070912a4083'' 0 6) = Inr \<lparr>year = 1981, month = 7, day = 9\<rparr> \<and>
   SetFromString ''81070912a4083'' newDraft =
     (newDraft\<lparr>birthdate := \<lparr>year = 1981, month = 7, day = 9\<rparr>\<rparr>,
      Some (NumError ''ParseInt'' ''12a4'' ErrSyntax))"
proof -
  have l: "length ''81070912a4083'' = 13" by simp
  have p: "Parse060102 (slice ''81070912a4083'' 0 6) = Inr \<lparr>year = 1981, month = 7, day = 9\<rparr>"
    by (simp add: eval_defs)
  have s: "slice ''81070912a4083'' 6 10 = ''12a4''" by (simp add: slice_def)
  have n: "\<not> signedDigits ''12a4''" by (simp add: signedDigits_def isDigit_def)
  from numeric_subfields [OF l p, of newDraft] s n l p show ?thesis by simp
qed

text \<open>
  The claim as stated fails on a signed gender code: \<open>SetFromString\<close> accepts the
  sub-field \<open>-123\<close> and stores the negative gender code -123, and \<open>NewIDNumber\<close> accepts
  the whole string \<open>810709+123089\<close>, with gender code 123.
\<close>

theorem numeric_subfields_counterexample:
  "SetFromString ''810709-123083'' newDraft =
     (\<lparr>birthdate = \<lparr>year = 1981, month = 7, day = 9\<rparr>, gender = - 123, citizenship = 0,
        luhnValue = 3\<rparr>, None) \<and>
   NewIDNumber [SetFromString ''810709+123089''] =
     Inr \<lparr>birthdate = \<lparr>year = 1981, month = 7, day = 9\<rparr>, gender = 123, citizenship = 0,
          luhnValue = 9\<rparr>"
  by (simp add: eval_defs)

text \<open>
  C10. \<open>SetFromString\<close> does not read byte 11: whatever byte stands there, the option
  does the same to the IDNumber and returns the same error or none. When \<open>NewIDNumber\<close>
  accepts the string, the string form of the result has 13 bytes and the digit 8 at
  index 11.
\<close>

theorem legacy_digit_ignored:
  "SetFromString (ids[11 := c]) idNumber = SetFromString ids idNumber \<and>
   (NewIDNumber [SetFromString ids] = Inr idn \<longrightarrow>
      length (String idn) = 13 \<and> String idn ! 11 = CHR ''8'')"
proof
  have e: "slice (ids[11 := c]) 0 6 = slice ids 0 6" "slice (ids[11 := c]) 6 10 = slice ids 6 10"
    "slice (ids[11 := c]) 10 11 = slice ids 10 11" "slice (ids[11 := c]) 12 13 = slice ids 12 13"
    by (simp_all add: slice_update_after slice_update_before)
  show "SetFromString (ids[11 := c]) idNumber = SetFromString ids idNumber"
    unfolding SetFromString_def e by simp
  show "NewIDNumber [SetFromString ids] = Inr idn \<longrightarrow>
      length (String idn) = 13 \<and> String idn ! 11 = CHR ''8''"
  proof
    assume "NewIDNumber [SetFromString ids] = Inr idn"
    then obtain draft where a: "applyOptions [SetFromString ids] newDraft = (draft, None)"
      and f: "finalize draft = Inr idn"
      using NewIDNumber_Inr by blast
    from a have s: "SetFromString ids newDraft = (draft, None)"
      by (cases "SetFromString ids newDraft") (auto split: option.splits)
    then have len: "length ids = 13" by (auto simp: SetFromString_def split: if_splits)
    from s len obtain t where p: "Parse060102 (slice ids 0 6) = Inr t"
      by (cases "Parse060102 (slice ids 0 6)") (auto simp: SetFromString_def)
    have g4: "length (slice ids 6 10) \<le> 4" using len by (simp add: length_slice)
    from s SetFromString_fields [OF len p, of newDraft]
    have sd: "signedDigits (slice ids 6 10)" and c: "isDigit (ids ! 10)"
      and draft: "draft = newDraft\<lparr>birthdate := t, gender := signedVal (slice ids 6 10),
          citizenship := int (digitVal (ids ! 10)), luhnValue := int (digitVal (ids ! 12))\<rparr>"
      by (auto split: if_splits)
    have v: "validDate (birthdate draft)" using Parse060102_valid [OF p] by (simp add: draft)
    from finalize_Inr [OF f] obtain n where n: "ParseInt (partialString draft) 64 = Inr n"
      and idn: "idn = draft\<lparr>luhnValue := CalculateLuhn n\<rparr>" by blast
    have g0: "0 \<le> gender draft"
    proof (rule ccontr)
      assume "\<not> 0 \<le> gender draft"
      then have "gender draft < 0" by simp
      from partialString_negative [OF v this] n show False by auto
    qed
    have g9: "gender draft \<le> 9999" using signedVal_bound [OF g4 sd] by (simp add: draft)
    have c9: "0 \<le> citizenship draft" "citizenship draft \<le> 9"
      using isDigit_digitVal [OF c] by (simp_all add: draft)
    have "validDate (birthdate idn)" "0 \<le> gender idn" "gender idn \<le> 9999"
      "0 \<le> citizenship idn" "citizenship idn \<le> 9" "0 \<le> luhnValue idn" "luhnValue idn \<le> 9"
      using v g0 g9 c9 CalculateLuhn_range [of n] by (simp_all add: idn)
    from String_slices(1,6) [OF this]
    show "length (String idn) = 13 \<and> String idn ! 11 = CHR ''8''" by simp
  qed
qed

theorem legacy_digit_ignored_witness:
  "SetFromString (''81070950050x3''[11 := CHR ''8'']) newDraft =
     SetFromString ''81070950050x3'' newDraft \<and>
   NewIDNumber [SetFromString ''81070950050x3''] =
     Inr \<lparr>birthdate = \<lparr>year = 1981, month = 7, day = 9\<rparr>, gender = 5005, citizenship = 0,
          luhnValue = 3\<rparr> \<and>
   length (String \<lparr>birthdate = \<lparr>year = 1981, month = 7, day = 9\<rparr>, gender = 5005,
     citizenship = 0, luhnValue = 3\<rparr>) = 13 \<and>
   String \<lparr>birthdate = \<lparr>year = 1981, month = 7, day = 9\<rparr>, gender = 5005,
     citizenship = 0, luhnValue = 3\<rparr> ! 11 = CHR ''8''"
proof -
  have r: "NewIDNumber [SetFromString ''81070950050x3''] =
     Inr \<lparr>birthdate = \<lparr>year = 1981, month = 7, day = 9\<rparr>, gender = 5005, citizenship = 0,
          luhnValue = 3\<rparr>"
    by (simp add: eval_defs)
  from legacy_digit_ignored [of "''81070950050x3''" "CHR ''8''" newDraft
      "\<lparr>birthdate = \<lparr>year = 1981, month = 7, day = 9\<rparr>, gender = 5005, citizenship = 0,
        luhnValue = 3\<rparr>"] r
  show ?thesis by simp
qed

end
